theory Spec2Isabelle
  imports Main
begin

section \<open>Tic Tac Toe: the game logic of \<open>tic_tac_toe_frontend/App.tsx\<close>\<close>

subsection \<open>Data model\<close>

text \<open>
  \<^verbatim>\<open>type Player = 'X' | 'O'; type Cell = Player | null; type Board = Cell[];\<close>
  A cell is \<open>None\<close> for \<^verbatim>\<open>null\<close> and \<open>Some p\<close> for a mark. A board is a JavaScript
  array, so its length is not fixed by the type.
\<close>

datatype Player = PlayerX | PlayerO

type_synonym Cell = "Player option"

type_synonym Board = "Cell list"

text \<open>
  Reading \<^verbatim>\<open>board[i]\<close> never throws: outside the array (negative index or at least the
  length) the result is \<^verbatim>\<open>undefined\<close>, here the outer \<open>None\<close>. Indices are JavaScript
  numbers; the model covers the integral ones.
\<close>

definition js_index :: "'a list \<Rightarrow> int \<Rightarrow> 'a option" where
  "js_index xs i = (if 0 \<le> i \<and> i < int (length xs) then Some (xs ! nat i) else None)"

definition WINNING_LINES :: "(int \<times> int \<times> int) list" where
  "WINNING_LINES =
     [(0, 1, 2), (3, 4, 5), (6, 7, 8),
      (0, 3, 6), (1, 4, 7), (2, 5, 8),
      (0, 4, 8), (2, 4, 6)]"

definition createEmptyBoard :: Board where
  "createEmptyBoard = replicate 9 None"

fun oppositePlayer :: "Player \<Rightarrow> Player" where
  "oppositePlayer player = (if player = PlayerX then PlayerO else PlayerX)"

subsection \<open>Rule evaluation\<close>

text \<open>
  \<^verbatim>\<open>getWinner\<close> returns an object with the two nullable fields \<^verbatim>\<open>winner\<close> and
  \<^verbatim>\<open>winningLine\<close>.
\<close>

record WinnerResult =
  winner :: "Player option"
  winningLine :: "int list option"

text \<open>
  The \<^verbatim>\<open>for (const line of WINNING_LINES)\<close> loop, as recursion over the lines still to
  be scanned. \<^verbatim>\<open>v && v === board[b] && v === board[c]\<close>: \<^verbatim>\<open>v\<close> is truthy exactly when
  it is a mark (neither \<^verbatim>\<open>undefined\<close> nor \<^verbatim>\<open>null\<close>), and strict equality compares the
  two other reads with that mark.
\<close>

fun getWinner_loop :: "(int \<times> int \<times> int) list \<Rightarrow> Board \<Rightarrow> WinnerResult" where
  "getWinner_loop [] brd = \<lparr>winner = None, winningLine = None\<rparr>"
| "getWinner_loop ((a, b, c) # rest) brd =
     (case js_index brd a of
        Some (Some v) \<Rightarrow>
          if js_index brd b = Some (Some v) \<and> js_index brd c = Some (Some v)
          then \<lparr>winner = Some v, winningLine = Some [a, b, c]\<rparr>
          else getWinner_loop rest brd
      | _ \<Rightarrow> getWinner_loop rest brd)"

definition getWinner :: "Board \<Rightarrow> WinnerResult" where
  "getWinner brd = getWinner_loop WINNING_LINES brd"

definition isDraw :: "Board \<Rightarrow> bool" where
  "isDraw brd \<longleftrightarrow> list_all (\<lambda>c. c \<noteq> None) brd \<and> winner (getWinner brd) = None"

datatype GameStatus =
    PLAYING Player
  | WON Player "int list"
  | DRAW

definition computeStatus :: "Board \<Rightarrow> Player \<Rightarrow> GameStatus" where
  "computeStatus brd np =
     (let r = getWinner brd in
      case (winner r, winningLine r) of
        (Some w, Some l) \<Rightarrow> WON w l
      | _ \<Rightarrow> if isDraw brd then DRAW else PLAYING np)"

subsection \<open>The three-in-a-row predicate used to state the scan\<close>

text \<open>
  A line is complete on a board when its three referenced cells all hold the same mark;
  \<open>lineMark\<close> is the mark of its first cell.
\<close>

definition lineComplete :: "Board \<Rightarrow> int \<times> int \<times> int \<Rightarrow> bool" where
  "lineComplete brd l =
     (case l of (a, b, c) \<Rightarrow>
        (case js_index brd a of
           Some (Some v) \<Rightarrow> js_index brd b = Some (Some v) \<and> js_index brd c = Some (Some v)
         | _ \<Rightarrow> False))"

definition lineMark :: "Board \<Rightarrow> int \<times> int \<times> int \<Rightarrow> Player option" where
  "lineMark brd l = (case l of (a, b, c) \<Rightarrow> (case js_index brd a of Some m \<Rightarrow> m | None \<Rightarrow> None))"

definition lineCells :: "int \<times> int \<times> int \<Rightarrow> int list" where
  "lineCells l = (case l of (a, b, c) \<Rightarrow> [a, b, c])"

subsection \<open>The round controller\<close>

text \<open>
  \<^verbatim>\<open>useState<{ X: number; O: number; draws: number }>\<close>. The counters start at zero and
  only ever grow by one, so they are natural numbers here (a JavaScript number holds
  every such count exactly below \<open>2^53\<close>).
\<close>

record Scores =
  score_X :: nat
  score_O :: nat
  draws :: nat

text \<open>
  The three \<^verbatim>\<open>useState\<close> cells of \<^verbatim>\<open>App\<close> form the session. Each handler runs to
  completion on the state of the latest render, so a handler is a function from the
  session before the event to the session after it.
\<close>

record Session =
  board :: Board
  nextPlayer :: Player
  scores :: Scores

definition initialSession :: Session where
  "initialSession =
     \<lparr>board = createEmptyBoard, nextPlayer = PlayerX,
      scores = \<lparr>score_X = 0, score_O = 0, draws = 0\<rparr>\<rparr>"

text \<open>\<^verbatim>\<open>const status = useMemo(() => computeStatus(board, nextPlayer), ...)\<close>\<close>

definition getStatus :: "Session \<Rightarrow> GameStatus" where
  "getStatus s = computeStatus (board s) (nextPlayer s)"

text \<open>\<^verbatim>\<open>{ ...s, [w]: s[w] + 1 }\<close> for the winner \<open>w\<close>.\<close>

fun incrementScore :: "Player \<Rightarrow> Scores \<Rightarrow> Scores" where
  "incrementScore PlayerX sc = sc\<lparr>score_X := score_X sc + 1\<rparr>"
| "incrementScore PlayerO sc = sc\<lparr>score_O := score_O sc + 1\<rparr>"

text \<open>
  \<^verbatim>\<open>applyMove(index)\<close>. Returning \<^verbatim>\<open>prev\<close> from the updater leaves the whole session as
  it was. \<^verbatim>\<open>prev[index] !== null\<close> holds for a mark and also for \<^verbatim>\<open>undefined\<close>, so the
  write \<^verbatim>\<open>next[index] = nextPlayer\<close> is only reached with \<open>index\<close> inside the array,
  where it is the list update.
\<close>

definition applyMove :: "int \<Rightarrow> Session \<Rightarrow> Session" where
  "applyMove index s =
     (let prev = board s; player = nextPlayer s in
      case computeStatus prev player of
        PLAYING _ \<Rightarrow>
          if js_index prev index \<noteq> Some None then s
          else
            let next = prev[nat index := Some player];
                afterStatus = computeStatus next (oppositePlayer player);
                newScores =
                  (case afterStatus of
                     WON w _ \<Rightarrow> incrementScore w (scores s)
                   | DRAW \<Rightarrow> (scores s)\<lparr>draws := draws (scores s) + 1\<rparr>
                   | PLAYING _ \<Rightarrow> scores s)
            in \<lparr>board = next, nextPlayer = oppositePlayer player, scores = newScores\<rparr>
      | _ \<Rightarrow> s)"

text \<open>
  \<^verbatim>\<open>restartRound(startingPlayer: Player = 'X')\<close>: the argument is \<open>None\<close> when the caller
  leaves it out.
\<close>

definition restartRound :: "Player option \<Rightarrow> Session \<Rightarrow> Session" where
  "restartRound startingPlayer s =
     s\<lparr>board := createEmptyBoard,
       nextPlayer := (case startingPlayer of None \<Rightarrow> PlayerX | Some p \<Rightarrow> p)\<rparr>"

definition resetScoresAndRestart :: "Session \<Rightarrow> Session" where
  "resetScoresAndRestart s =
     restartRound (Some PlayerX) (s\<lparr>scores := \<lparr>score_X = 0, score_O = 0, draws = 0\<rparr>\<rparr>)"

subsection \<open>Notions used to state the properties\<close>

text \<open>
  A move is accepted when the status before it is Playing and the target cell is Empty.
\<close>

definition moveAccepted :: "int \<Rightarrow> Session \<Rightarrow> bool" where
  "moveAccepted i s \<longleftrightarrow>
     (case getStatus s of PLAYING _ \<Rightarrow> True | _ \<Rightarrow> False) \<and>
     js_index (board s) i = Some None"

text \<open>
  The sessions reachable from the initial one by the three operations, moves taking an
  index from 0 to 8.
\<close>

inductive reachable :: "Session \<Rightarrow> bool" where
  reachable_init: "reachable initialSession"
| reachable_move: "reachable s \<Longrightarrow> 0 \<le> i \<Longrightarrow> i \<le> 8 \<Longrightarrow> reachable (applyMove i s)"
| reachable_restart: "reachable s \<Longrightarrow> reachable (restartRound startingPlayer s)"
| reachable_reset: "reachable s \<Longrightarrow> reachable (resetScoresAndRestart s)"

subsection \<open>The scan of the winning lines\<close>

lemma getWinner_loop_none:
  "\<forall>l \<in> set ls. \<not> lineComplete brd l \<Longrightarrow>
   getWinner_loop ls brd = \<lparr>winner = None, winningLine = None\<rparr>"
proof (induction ls)
  case Nil
  show ?case by simp
next
  case (Cons l ls)
  obtain a b c where l: "l = (a, b, c)" by (cases l) auto
  from Cons.prems have nl: "\<not> lineComplete brd (a, b, c)" and
    rest: "\<forall>l' \<in> set ls. \<not> lineComplete brd l'" by (simp_all add: l)
  from Cons.IH [OF rest] nl show ?case
    by (auto simp: l lineComplete_def split: option.splits)
qed

lemma getWinner_loop_first:
  assumes "k < length ls" and "lineComplete brd (ls ! k)"
    and "\<forall>j < k. \<not> lineComplete brd (ls ! j)"
  shows "getWinner_loop ls brd =
           \<lparr>winner = lineMark brd (ls ! k), winningLine = Some (lineCells (ls ! k))\<rparr>"
  using assms
proof (induction ls arbitrary: k)
  case Nil
  then show ?case by simp
next
  case (Cons l ls)
  obtain a b c where l: "l = (a, b, c)" by (cases l) auto
  show ?case
  proof (cases k)
    case 0
    with Cons.prems(2) show ?thesis
      by (auto simp: l lineComplete_def lineMark_def lineCells_def split: option.splits)
  next
    case (Suc k')
    from Cons.prems(3) Suc have nl: "\<not> lineComplete brd (a, b, c)"
      by (auto simp: l)
    have k': "k' < length ls" using Cons.prems(1) Suc by simp
    have c': "lineComplete brd (ls ! k')" using Cons.prems(2) Suc by simp
    have n': "\<forall>j < k'. \<not> lineComplete brd (ls ! j)"
    proof (intro allI impI)
      fix j assume "j < k'"
      then have "Suc j < k" using Suc by simp
      with Cons.prems(3) have "\<not> lineComplete brd ((l # ls) ! Suc j)" by blast
      then show "\<not> lineComplete brd (ls ! j)" by simp
    qed
    have "getWinner_loop (l # ls) brd = getWinner_loop ls brd"
      using nl by (auto simp: l lineComplete_def split: option.splits)
    with Cons.IH [OF k' c' n'] Suc show ?thesis by simp
  qed
qed

lemma lineComplete_iff:
  "lineComplete brd (a, b, c) \<longleftrightarrow>
     (\<exists>p. js_index brd a = Some (Some p) \<and> js_index brd b = Some (Some p) \<and>
          js_index brd c = Some (Some p))"
  by (auto simp: lineComplete_def split: option.splits)

text \<open>
  Claim C1. \<open>getWinner\<close> scans the eight lines \<open>{0,1,2}, {3,4,5}, {6,7,8}, {0,3,6},
  {1,4,7}, {2,5,8}, {0,4,8}, {2,4,6}\<close> in this order. If line number \<open>k\<close> of that list
  has the same mark \<open>p\<close> in its three cells and no earlier line is complete, the result
  is the winner \<open>p\<close> with that line; if no line is complete, the result has no winner
  and no line.
\<close>

theorem getWinner_first_complete_line:
  "WINNING_LINES =
     [(0, 1, 2), (3, 4, 5), (6, 7, 8), (0, 3, 6), (1, 4, 7), (2, 5, 8), (0, 4, 8), (2, 4, 6)] \<and>
   (k < length WINNING_LINES \<and> WINNING_LINES ! k = (a, b, c) \<and>
    js_index brd a = Some (Some p) \<and> js_index brd b = Some (Some p) \<and>
    js_index brd c = Some (Some p) \<and>
    (\<forall>j < k. \<not> lineComplete brd (WINNING_LINES ! j))
    \<longrightarrow> getWinner brd = \<lparr>winner = Some p, winningLine = Some [a, b, c]\<rparr>) \<and>
   ((\<forall>j < length WINNING_LINES. \<not> lineComplete brd (WINNING_LINES ! j))
    \<longrightarrow> getWinner brd = \<lparr>winner = None, winningLine = None\<rparr>)"
proof (intro conjI impI)
  show "WINNING_LINES =
     [(0, 1, 2), (3, 4, 5), (6, 7, 8), (0, 3, 6), (1, 4, 7), (2, 5, 8), (0, 4, 8), (2, 4, 6)]"
    by (simp add: WINNING_LINES_def)
next
  assume h: "k < length WINNING_LINES \<and> WINNING_LINES ! k = (a, b, c) \<and>
    js_index brd a = Some (Some p) \<and> js_index brd b = Some (Some p) \<and>
    js_index brd c = Some (Some p) \<and>
    (\<forall>j < k. \<not> lineComplete brd (WINNING_LINES ! j))"
  then have k: "k < length WINNING_LINES" and l: "WINNING_LINES ! k = (a, b, c)"
    and earlier: "\<forall>j < k. \<not> lineComplete brd (WINNING_LINES ! j)" by simp_all
  from h have "lineComplete brd (a, b, c)" by (auto simp: lineComplete_iff)
  then have complete: "lineComplete brd (WINNING_LINES ! k)" by (simp add: l)
  from h have mark: "lineMark brd (a, b, c) = Some p" by (simp add: lineMark_def)
  from getWinner_loop_first [OF k complete earlier] mark
  show "getWinner brd = \<lparr>winner = Some p, winningLine = Some [a, b, c]\<rparr>"
    by (simp add: getWinner_def l lineCells_def)
next
  assume "\<forall>j < length WINNING_LINES. \<not> lineComplete brd (WINNING_LINES ! j)"
  then have "\<forall>l \<in> set WINNING_LINES. \<not> lineComplete brd l"
    by (metis in_set_conv_nth)
  then show "getWinner brd = \<lparr>winner = None, winningLine = None\<rparr>"
    by (simp add: getWinner_def getWinner_loop_none)
qed

text \<open>
  The scan at work: on a board whose top row is \<open>X, X, Empty\<close> and whose middle row is
  three \<open>O\<close>, line number 1 is the first complete one; on the empty board none is.
\<close>

theorem getWinner_first_complete_line_witness:
  "getWinner [Some PlayerX, Some PlayerX, None, Some PlayerO, Some PlayerO, Some PlayerO,
              None, None, Some PlayerX]
     = \<lparr>winner = Some PlayerO, winningLine = Some [3, 4, 5]\<rparr> \<and>
   getWinner (replicate 9 None) = \<lparr>winner = None, winningLine = None\<rparr>"
proof
  let ?b = "[Some PlayerX, Some PlayerX, None, Some PlayerO, Some PlayerO, Some PlayerO,
             None, None, Some PlayerX]"
  have "\<forall>j < (1::nat). \<not> lineComplete ?b (WINNING_LINES ! j)"
    by (simp add: WINNING_LINES_def lineComplete_def js_index_def)
  with getWinner_first_complete_line [of 1 3 4 5 ?b PlayerO]
  show "getWinner ?b = \<lparr>winner = Some PlayerO, winningLine = Some [3, 4, 5]\<rparr>"
    by (simp add: WINNING_LINES_def js_index_def)
next
  have "\<forall>l \<in> set WINNING_LINES. \<not> lineComplete (replicate 9 None) l"
    by (simp add: WINNING_LINES_def lineComplete_def js_index_def)
  then have "\<forall>j < length WINNING_LINES. \<not> lineComplete (replicate 9 None) (WINNING_LINES ! j)"
    by simp
  with getWinner_first_complete_line [of 0 0 0 0 "replicate 9 None" PlayerX]
  show "getWinner (replicate 9 None) = \<lparr>winner = None, winningLine = None\<rparr>"
    by blast
qed

subsection \<open>Draw and status\<close>

lemma getWinner_loop_result:
  "getWinner_loop ls brd = \<lparr>winner = None, winningLine = None\<rparr> \<or>
   (\<exists>w l. getWinner_loop ls brd = \<lparr>winner = Some w, winningLine = Some l\<rparr>)"
proof (induction ls)
  case Nil
  show ?case by simp
next
  case (Cons l ls)
  obtain a b c where l: "l = (a, b, c)" by (cases l) auto
  from Cons.IH show ?case
    by (auto simp: l split: option.splits)
qed

lemma getWinner_loop_some:
  "\<exists>l \<in> set ls. lineComplete brd l \<Longrightarrow> winner (getWinner_loop ls brd) \<noteq> None"
proof (induction ls)
  case Nil
  then show ?case by simp
next
  case (Cons l ls)
  obtain a b c where l: "l = (a, b, c)" by (cases l) auto
  show ?case
  proof (cases "lineComplete brd (a, b, c)")
    case True
    then show ?thesis
      by (auto simp: l lineComplete_def split: option.splits)
  next
    case False
    with Cons.prems have "\<exists>l' \<in> set ls. lineComplete brd l'" by (auto simp: l)
    from Cons.IH [OF this] False show ?thesis
      by (auto simp: l lineComplete_def split: option.splits)
  qed
qed

lemma getWinner_result:
  "getWinner brd = \<lparr>winner = None, winningLine = None\<rparr> \<or>
   (\<exists>w l. getWinner brd = \<lparr>winner = Some w, winningLine = Some l\<rparr>)"
  unfolding getWinner_def by (rule getWinner_loop_result)

lemma all_cells_marked:
  "list_all (\<lambda>c. c \<noteq> None) brd \<longleftrightarrow>
     (\<forall>i. 0 \<le> i \<and> i < int (length brd) \<longrightarrow> (\<exists>p. js_index brd i = Some (Some p)))"
proof
  assume full: "list_all (\<lambda>c. c \<noteq> None) brd"
  show "\<forall>i. 0 \<le> i \<and> i < int (length brd) \<longrightarrow> (\<exists>p. js_index brd i = Some (Some p))"
  proof (intro allI impI)
    fix i :: int
    assume i: "0 \<le> i \<and> i < int (length brd)"
    then have "nat i < length brd" by linarith
    with full have "brd ! nat i \<noteq> None" by (simp add: list_all_length)
    with i show "\<exists>p. js_index brd i = Some (Some p)" by (auto simp: js_index_def)
  qed
next
  assume cells: "\<forall>i. 0 \<le> i \<and> i < int (length brd) \<longrightarrow> (\<exists>p. js_index brd i = Some (Some p))"
  have "\<forall>n < length brd. brd ! n \<noteq> None"
  proof (intro allI impI)
    fix n assume n: "n < length brd"
    then have "0 \<le> int n \<and> int n < int (length brd)" by simp
    with cells obtain p where "js_index brd (int n) = Some (Some p)" by blast
    with n show "brd ! n \<noteq> None" by (simp add: js_index_def)
  qed
  then show "list_all (\<lambda>c. c \<noteq> None) brd" by (simp add: list_all_length)
qed

text \<open>
  Claim C2. On a board of 9 cells, \<open>isDraw\<close> is true exactly when each of the cells 0 to 8
  holds a mark and \<open>getWinner\<close> reports no winner.
\<close>

theorem isDraw_iff_full_and_no_winner:
  "length brd = 9 \<Longrightarrow>
   isDraw brd \<longleftrightarrow>
     (\<forall>i. 0 \<le> i \<and> i \<le> 8 \<longrightarrow> (\<exists>p. js_index brd i = Some (Some p))) \<and>
     winner (getWinner brd) = None"
proof -
  assume len: "length brd = 9"
  have range: "\<And>i::int. (0 \<le> i \<and> i < int (length brd)) = (0 \<le> i \<and> i \<le> 8)"
    using len by auto
  have "list_all (\<lambda>c. c \<noteq> None) brd \<longleftrightarrow>
          (\<forall>i. 0 \<le> i \<and> i \<le> 8 \<longrightarrow> (\<exists>p. js_index brd i = Some (Some p)))"
    by (simp only: all_cells_marked range)
  then show ?thesis
    unfolding isDraw_def by (simp only:)
qed

text \<open>
  The board of Scenario 3 (X on 0, 1, 5, 6, 8 and O on 2, 3, 4, 7) is a draw, so all its
  cells are marked and it has no winner; a full board with a complete line is no draw.
\<close>

theorem isDraw_iff_full_and_no_winner_witness:
  "length [Some PlayerX, Some PlayerX, Some PlayerO, Some PlayerO, Some PlayerO,
           Some PlayerX, Some PlayerX, Some PlayerO, Some PlayerX] = 9 \<and>
   isDraw [Some PlayerX, Some PlayerX, Some PlayerO, Some PlayerO, Some PlayerO,
           Some PlayerX, Some PlayerX, Some PlayerO, Some PlayerX] \<and>
   (\<exists>p. js_index [Some PlayerX, Some PlayerX, Some PlayerO, Some PlayerO, Some PlayerO,
                   Some PlayerX, Some PlayerX, Some PlayerO, Some PlayerX] 8
           = Some (Some p)) \<and>
   winner (getWinner [Some PlayerX, Some PlayerX, Some PlayerO, Some PlayerO, Some PlayerO,
                      Some PlayerX, Some PlayerX, Some PlayerO, Some PlayerX]) = None \<and>
   winner (getWinner [Some PlayerX, Some PlayerX, Some PlayerX, Some PlayerO, Some PlayerO,
                      Some PlayerX, Some PlayerO, Some PlayerX, Some PlayerO]) = Some PlayerX \<and>
   \<not> isDraw [Some PlayerX, Some PlayerX, Some PlayerX, Some PlayerO, Some PlayerO,
             Some PlayerX, Some PlayerO, Some PlayerX, Some PlayerO]"
proof -
  let ?b = "[Some PlayerX, Some PlayerX, Some PlayerO, Some PlayerO, Some PlayerO,
             Some PlayerX, Some PlayerX, Some PlayerO, Some PlayerX]"
  let ?won = "[Some PlayerX, Some PlayerX, Some PlayerX, Some PlayerO, Some PlayerO,
               Some PlayerX, Some PlayerO, Some PlayerX, Some PlayerO]"
  have len: "length ?b = 9" by simp
  have draw: "isDraw ?b"
    by (simp add: isDraw_def getWinner_def WINNING_LINES_def js_index_def)
  from isDraw_iff_full_and_no_winner [OF len] draw
  have cells: "\<forall>i. 0 \<le> i \<and> i \<le> 8 \<longrightarrow> (\<exists>p. js_index ?b i = Some (Some p))"
    and none: "winner (getWinner ?b) = None" by blast+
  from cells have last: "\<exists>p. js_index ?b 8 = Some (Some p)" by simp
  have len': "length ?won = 9" by simp
  have w: "winner (getWinner ?won) = Some PlayerX"
    by (simp add: getWinner_def WINNING_LINES_def js_index_def)
  with isDraw_iff_full_and_no_winner [OF len'] have "\<not> isDraw ?won" by simp
  with len draw last none w show ?thesis by blast
qed

text \<open>
  Claim C3. \<open>computeStatus\<close> reports Won with the winner and the line of \<open>getWinner\<close>
  when there is a winner; otherwise Draw when \<open>isDraw\<close> holds; otherwise Playing with the
  given next player. A board that is completely filled and has a complete line is Won,
  not Draw.
\<close>

theorem computeStatus_precedence:
  "(winner (getWinner brd) = Some w \<longrightarrow>
      (\<exists>l. winningLine (getWinner brd) = Some l \<and> computeStatus brd np = WON w l)) \<and>
   (winner (getWinner brd) = None \<and> isDraw brd \<longrightarrow> computeStatus brd np = DRAW) \<and>
   (winner (getWinner brd) = None \<and> \<not> isDraw brd \<longrightarrow> computeStatus brd np = PLAYING np) \<and>
   (list_all (\<lambda>c. c \<noteq> None) brd \<and> (\<exists>line \<in> set WINNING_LINES. lineComplete brd line) \<longrightarrow>
      (\<exists>w' l'. computeStatus brd np = WON w' l') \<and> computeStatus brd np \<noteq> DRAW)"
proof (intro conjI impI)
  assume "winner (getWinner brd) = Some w"
  with getWinner_result [of brd] obtain l
    where "getWinner brd = \<lparr>winner = Some w, winningLine = Some l\<rparr>" by auto
  then show "\<exists>l. winningLine (getWinner brd) = Some l \<and> computeStatus brd np = WON w l"
    by (simp add: computeStatus_def)
next
  assume "winner (getWinner brd) = None \<and> isDraw brd"
  then show "computeStatus brd np = DRAW"
    by (simp add: computeStatus_def)
next
  assume "winner (getWinner brd) = None \<and> \<not> isDraw brd"
  then show "computeStatus brd np = PLAYING np"
    by (simp add: computeStatus_def)
next
  assume "list_all (\<lambda>c. c \<noteq> None) brd \<and> (\<exists>line \<in> set WINNING_LINES. lineComplete brd line)"
  then have "winner (getWinner brd) \<noteq> None"
    by (simp add: getWinner_def getWinner_loop_some)
  with getWinner_result [of brd] obtain w' l'
    where "getWinner brd = \<lparr>winner = Some w', winningLine = Some l'\<rparr>" by auto
  then have won: "computeStatus brd np = WON w' l'"
    by (simp add: computeStatus_def)
  then show "\<exists>w' l'. computeStatus brd np = WON w' l'" by blast
  from won show "computeStatus brd np \<noteq> DRAW" by simp
qed

text \<open>
  The three cases on concrete boards: a full board whose top row is three \<open>X\<close> is Won
  (and not Draw), the board of Scenario 3 is Draw, the empty board is Playing.
\<close>

theorem computeStatus_precedence_witness:
  "computeStatus [Some PlayerX, Some PlayerX, Some PlayerX, Some PlayerO, Some PlayerO,
                  Some PlayerX, Some PlayerO, Some PlayerX, Some PlayerO] PlayerO
     = WON PlayerX [0, 1, 2] \<and>
   computeStatus [Some PlayerX, Some PlayerX, Some PlayerX, Some PlayerO, Some PlayerO,
                  Some PlayerX, Some PlayerO, Some PlayerX, Some PlayerO] PlayerO \<noteq> DRAW \<and>
   computeStatus [Some PlayerX, Some PlayerX, Some PlayerO, Some PlayerO, Some PlayerO,
                  Some PlayerX, Some PlayerX, Some PlayerO, Some PlayerX] PlayerO = DRAW \<and>
   computeStatus [None, None, None, None, None, None, None, None, None] PlayerX
     = PLAYING PlayerX"
proof (intro conjI)
  let ?won = "[Some PlayerX, Some PlayerX, Some PlayerX, Some PlayerO, Some PlayerO,
               Some PlayerX, Some PlayerO, Some PlayerX, Some PlayerO]"
  let ?draw = "[Some PlayerX, Some PlayerX, Some PlayerO, Some PlayerO, Some PlayerO,
                Some PlayerX, Some PlayerX, Some PlayerO, Some PlayerX]"
  let ?empty = "[None, None, None, None, None, None, None, None, None] :: Board"
  have w: "winner (getWinner ?won) = Some PlayerX"
    by (simp add: getWinner_def WINNING_LINES_def js_index_def)
  have l: "winningLine (getWinner ?won) = Some [0, 1, 2]"
    by (simp add: getWinner_def WINNING_LINES_def js_index_def)
  from computeStatus_precedence [of ?won PlayerX PlayerO] w l
  show "computeStatus ?won PlayerO = WON PlayerX [0, 1, 2]" by auto
  have full: "list_all (\<lambda>c. c \<noteq> None) ?won" by simp
  have "lineComplete ?won (0, 1, 2)" by (simp add: lineComplete_def js_index_def)
  then have line: "\<exists>line \<in> set WINNING_LINES. lineComplete ?won line"
    by (simp add: WINNING_LINES_def)
  from computeStatus_precedence [of ?won PlayerX PlayerO] full line
  show "computeStatus ?won PlayerO \<noteq> DRAW" by blast
  have d: "winner (getWinner ?draw) = None \<and> isDraw ?draw"
    by (simp add: isDraw_def getWinner_def WINNING_LINES_def js_index_def)
  with computeStatus_precedence [of ?draw PlayerX PlayerO]
  show "computeStatus ?draw PlayerO = DRAW" by blast
  have e: "winner (getWinner ?empty) = None \<and> \<not> isDraw ?empty"
    by (simp add: isDraw_def getWinner_def WINNING_LINES_def js_index_def)
  with computeStatus_precedence [of ?empty PlayerX PlayerX]
  show "computeStatus ?empty PlayerX = PLAYING PlayerX" by blast
qed

subsection \<open>Moves\<close>

lemma computeStatus_PLAYING:
  "computeStatus brd np = PLAYING p \<Longrightarrow> p = np"
  using getWinner_result [of brd]
  by (auto simp: computeStatus_def split: if_splits)

lemma applyMove_rejected:
  "\<not> moveAccepted i s \<Longrightarrow> applyMove i s = s"
  by (auto simp: applyMove_def moveAccepted_def getStatus_def Let_def split: GameStatus.splits)

lemma applyMove_accepted:
  assumes "moveAccepted i s"
  shows "applyMove i s =
           \<lparr>board = (board s)[nat i := Some (nextPlayer s)],
            nextPlayer = oppositePlayer (nextPlayer s),
            scores =
              (case computeStatus ((board s)[nat i := Some (nextPlayer s)])
                      (oppositePlayer (nextPlayer s)) of
                 WON w _ \<Rightarrow> incrementScore w (scores s)
               | DRAW \<Rightarrow> (scores s)\<lparr>draws := draws (scores s) + 1\<rparr>
               | PLAYING _ \<Rightarrow> scores s)\<rparr>"
proof -
  from assms obtain p where "computeStatus (board s) (nextPlayer s) = PLAYING p"
    and "js_index (board s) i = Some None"
    by (auto simp: moveAccepted_def getStatus_def split: GameStatus.splits)
  then show ?thesis
    by (simp add: applyMove_def Let_def)
qed

lemma js_index_update:
  "0 \<le> i \<Longrightarrow>
   js_index (xs[nat i := v]) j =
     (if j = i \<and> i < int (length xs) then Some v else js_index xs j)"
  by (auto simp: js_index_def nth_list_update nat_eq_iff)

lemma createEmptyBoard_cells:
  "createEmptyBoard = [None, None, None, None, None, None, None, None, None]"
  by (simp add: createEmptyBoard_def eval_nat_numeral)

lemma replicate_9_cells:
  "replicate 9 (None :: Cell) = [None, None, None, None, None, None, None, None, None]"
  by (simp add: eval_nat_numeral)

lemma computeStatus_createEmptyBoard:
  "computeStatus createEmptyBoard np = PLAYING np"
  by (simp add: createEmptyBoard_cells computeStatus_def isDraw_def getWinner_def
      WINNING_LINES_def js_index_def)

text \<open>
  Claim C4. For an index from 0 to 8, when the current status is Won or Draw, or the
  target cell holds a mark, \<open>applyMove\<close> returns the session it was given: board, next
  player and scores are unchanged. The operation has no error result.
\<close>

theorem applyMove_rejected_is_noop:
  "0 \<le> i \<and> i \<le> 8 \<Longrightarrow>
   (\<exists>w l. getStatus s = WON w l) \<or> getStatus s = DRAW \<or>
   (\<exists>p. js_index (board s) i = Some (Some p)) \<Longrightarrow>
   applyMove i s = s \<and>
   board (applyMove i s) = board s \<and>
   nextPlayer (applyMove i s) = nextPlayer s \<and>
   scores (applyMove i s) = scores s"
proof -
  assume "(\<exists>w l. getStatus s = WON w l) \<or> getStatus s = DRAW \<or>
          (\<exists>p. js_index (board s) i = Some (Some p))"
  then have "\<not> moveAccepted i s"
    by (auto simp: moveAccepted_def)
  then have "applyMove i s = s" by (rule applyMove_rejected)
  then show ?thesis by simp
qed

text \<open>
  A move on the occupied centre cell during play, and a move on a free cell after \<open>X\<close>
  has won: both return the session unchanged.
\<close>

theorem applyMove_rejected_is_noop_witness:
  "applyMove 4
     \<lparr>board = [None, None, None, None, Some PlayerX, None, None, None, None],
      nextPlayer = PlayerO, scores = \<lparr>score_X = 1, score_O = 2, draws = 3\<rparr>\<rparr>
   = \<lparr>board = [None, None, None, None, Some PlayerX, None, None, None, None],
      nextPlayer = PlayerO, scores = \<lparr>score_X = 1, score_O = 2, draws = 3\<rparr>\<rparr> \<and>
   applyMove 8
     \<lparr>board = [Some PlayerX, Some PlayerX, Some PlayerX, Some PlayerO, Some PlayerO,
               None, None, None, None],
      nextPlayer = PlayerO, scores = \<lparr>score_X = 1, score_O = 0, draws = 0\<rparr>\<rparr>
   = \<lparr>board = [Some PlayerX, Some PlayerX, Some PlayerX, Some PlayerO, Some PlayerO,
               None, None, None, None],
      nextPlayer = PlayerO, scores = \<lparr>score_X = 1, score_O = 0, draws = 0\<rparr>\<rparr>"
proof
  let ?s = "\<lparr>board = [None, None, None, None, Some PlayerX, None, None, None, None],
             nextPlayer = PlayerO, scores = \<lparr>score_X = 1, score_O = 2, draws = 3\<rparr>\<rparr>"
  have "js_index (board ?s) 4 = Some (Some PlayerX)" by (simp add: js_index_def)
  then have "(\<exists>w l. getStatus ?s = WON w l) \<or> getStatus ?s = DRAW \<or>
             (\<exists>p. js_index (board ?s) 4 = Some (Some p))" by blast
  with applyMove_rejected_is_noop [of 4 ?s] show "applyMove 4 ?s = ?s" by simp
next
  let ?s = "\<lparr>board = [Some PlayerX, Some PlayerX, Some PlayerX, Some PlayerO, Some PlayerO,
                      None, None, None, None],
             nextPlayer = PlayerO, scores = \<lparr>score_X = 1, score_O = 0, draws = 0\<rparr>\<rparr>"
  have "getStatus ?s = WON PlayerX [0, 1, 2]"
    by (simp add: getStatus_def computeStatus_def getWinner_def WINNING_LINES_def js_index_def)
  then have "(\<exists>w l. getStatus ?s = WON w l) \<or> getStatus ?s = DRAW \<or>
             (\<exists>p. js_index (board ?s) 8 = Some (Some p))" by blast
  with applyMove_rejected_is_noop [of 8 ?s] show "applyMove 8 ?s = ?s" by simp
qed

lemma oppositePlayer_cases:
  "oppositePlayer p = (case p of PlayerX \<Rightarrow> PlayerO | PlayerO \<Rightarrow> PlayerX)"
  by (cases p) simp_all

lemma oppositePlayer_differs:
  "oppositePlayer p \<noteq> p"
  by (cases p) simp_all

text \<open>
  Claim C5. When the status is Playing with player \<open>p\<close> and the cell at an index from 0
  to 8 is Empty, \<open>applyMove\<close> puts \<open>p\<close>'s mark at that index and changes no other cell,
  makes the opposite of \<open>p\<close> the next player (\<open>O\<close> after \<open>X\<close>, \<open>X\<close> after \<open>O\<close>, never \<open>p\<close>
  again), and the status of the new session is \<open>computeStatus\<close> of the new board and the
  opposite of \<open>p\<close>, whichever of Playing, Won or Draw that is.
\<close>

theorem applyMove_accepted_effect:
  "getStatus s = PLAYING p \<and> 0 \<le> i \<and> i \<le> 8 \<and> js_index (board s) i = Some None \<Longrightarrow>
   p = nextPlayer s \<and>
   board (applyMove i s) = (board s)[nat i := Some p] \<and>
   length (board (applyMove i s)) = length (board s) \<and>
   js_index (board (applyMove i s)) i = Some (Some p) \<and>
   (\<forall>j. j \<noteq> i \<longrightarrow> js_index (board (applyMove i s)) j = js_index (board s) j) \<and>
   nextPlayer (applyMove i s) = oppositePlayer p \<and>
   nextPlayer (applyMove i s) = (case p of PlayerX \<Rightarrow> PlayerO | PlayerO \<Rightarrow> PlayerX) \<and>
   nextPlayer (applyMove i s) \<noteq> p \<and>
   getStatus (applyMove i s) = computeStatus ((board s)[nat i := Some p]) (oppositePlayer p) \<and>
   getStatus (applyMove i s) =
     computeStatus ((board s)[nat i := Some p])
       (case p of PlayerX \<Rightarrow> PlayerO | PlayerO \<Rightarrow> PlayerX)"
proof -
  assume h: "getStatus s = PLAYING p \<and> 0 \<le> i \<and> i \<le> 8 \<and> js_index (board s) i = Some None"
  then have p: "p = nextPlayer s"
    by (auto simp: getStatus_def dest: computeStatus_PLAYING)
  from h have acc: "moveAccepted i s" by (auto simp: moveAccepted_def)
  from h have i0: "0 \<le> i" by simp
  from h have inside: "i < int (length (board s))"
    by (auto simp: js_index_def split: if_splits)
  note eq = applyMove_accepted [OF acc]
  have b: "board (applyMove i s) = (board s)[nat i := Some p]"
    by (simp add: eq p)
  have len: "length (board (applyMove i s)) = length (board s)"
    by (simp add: b)
  have n: "nextPlayer (applyMove i s) = oppositePlayer p"
    by (simp add: eq p)
  have n': "nextPlayer (applyMove i s) = (case p of PlayerX \<Rightarrow> PlayerO | PlayerO \<Rightarrow> PlayerX)"
    by (simp only: n oppositePlayer_cases)
  have d: "nextPlayer (applyMove i s) \<noteq> p"
    by (simp only: n oppositePlayer_differs not_False_eq_True)
  have c: "js_index (board (applyMove i s)) i = Some (Some p)"
    using inside by (simp add: b js_index_update [OF i0])
  have o: "\<forall>j. j \<noteq> i \<longrightarrow> js_index (board (applyMove i s)) j = js_index (board s) j"
    by (simp add: b js_index_update [OF i0])
  have st: "getStatus (applyMove i s)
              = computeStatus ((board s)[nat i := Some p]) (oppositePlayer p)"
    unfolding getStatus_def by (simp only: b n)
  have st': "getStatus (applyMove i s)
               = computeStatus ((board s)[nat i := Some p])
                   (case p of PlayerX \<Rightarrow> PlayerO | PlayerO \<Rightarrow> PlayerX)"
    by (simp only: st oppositePlayer_cases)
  from p b len c o n n' d st st' show ?thesis by blast
qed

text \<open>
  Three accepted moves. The first move of a session: \<open>X\<close> takes the centre and \<open>O\<close> is
  next. The reply: \<open>O\<close> takes cell 0 and \<open>X\<close> is next. Scenario 2's last move: \<open>X\<close>
  completes the top row, the status is Won, and the next player is \<open>O\<close> all the same.
\<close>

theorem applyMove_accepted_effect_witness:
  "getStatus initialSession = PLAYING PlayerX \<and>
   js_index (board initialSession) 4 = Some None \<and>
   board (applyMove 4 initialSession)
     = [None, None, None, None, Some PlayerX, None, None, None, None] \<and>
   nextPlayer (applyMove 4 initialSession) = PlayerO \<and>
   getStatus (applyMove 4 initialSession) = PLAYING PlayerO \<and>
   board (applyMove 0
     \<lparr>board = [None, None, None, None, Some PlayerX, None, None, None, None],
      nextPlayer = PlayerO, scores = \<lparr>score_X = 0, score_O = 0, draws = 0\<rparr>\<rparr>)
     = [Some PlayerO, None, None, None, Some PlayerX, None, None, None, None] \<and>
   nextPlayer (applyMove 0
     \<lparr>board = [None, None, None, None, Some PlayerX, None, None, None, None],
      nextPlayer = PlayerO, scores = \<lparr>score_X = 0, score_O = 0, draws = 0\<rparr>\<rparr>)
     = PlayerX \<and>
   getStatus (applyMove 0
     \<lparr>board = [None, None, None, None, Some PlayerX, None, None, None, None],
      nextPlayer = PlayerO, scores = \<lparr>score_X = 0, score_O = 0, draws = 0\<rparr>\<rparr>)
     = PLAYING PlayerX \<and>
   nextPlayer (applyMove 2
     \<lparr>board = [Some PlayerX, Some PlayerX, None, Some PlayerO, Some PlayerO,
               None, None, None, None],
      nextPlayer = PlayerX, scores = \<lparr>score_X = 0, score_O = 0, draws = 0\<rparr>\<rparr>)
     = PlayerO \<and>
   getStatus (applyMove 2
     \<lparr>board = [Some PlayerX, Some PlayerX, None, Some PlayerO, Some PlayerO,
               None, None, None, None],
      nextPlayer = PlayerX, scores = \<lparr>score_X = 0, score_O = 0, draws = 0\<rparr>\<rparr>)
     = WON PlayerX [0, 1, 2]"
proof -
  let ?s1 = "\<lparr>board = [None, None, None, None, Some PlayerX, None, None, None, None],
              nextPlayer = PlayerO, scores = \<lparr>score_X = 0, score_O = 0, draws = 0\<rparr>\<rparr>"
  let ?s2 = "\<lparr>board = [Some PlayerX, Some PlayerX, None, Some PlayerO, Some PlayerO,
                       None, None, None, None],
              nextPlayer = PlayerX, scores = \<lparr>score_X = 0, score_O = 0, draws = 0\<rparr>\<rparr>"
  have st: "getStatus initialSession = PLAYING PlayerX"
    by (simp add: getStatus_def initialSession_def computeStatus_createEmptyBoard)
  have cell: "js_index (board initialSession) 4 = Some None"
    by (simp add: initialSession_def createEmptyBoard_cells js_index_def)
  have b: "(board initialSession)[nat 4 := Some PlayerX]
             = [None, None, None, None, Some PlayerX, None, None, None, None]"
    by (simp add: initialSession_def createEmptyBoard_cells eval_nat_numeral)
  have c: "computeStatus [None, None, None, None, Some PlayerX, None, None, None, None] PlayerO
             = PLAYING PlayerO"
    by (simp add: computeStatus_def isDraw_def getWinner_def WINNING_LINES_def js_index_def)
  from st cell have h0: "getStatus initialSession = PLAYING PlayerX \<and> (0::int) \<le> 4 \<and>
      (4::int) \<le> 8 \<and> js_index (board initialSession) 4 = Some None" by simp
  from applyMove_accepted_effect [OF h0]
  have first:
    "board (applyMove 4 initialSession) = (board initialSession)[nat 4 := Some PlayerX]"
    "nextPlayer (applyMove 4 initialSession) = (case PlayerX of PlayerX \<Rightarrow> PlayerO | PlayerO \<Rightarrow> PlayerX)"
    "getStatus (applyMove 4 initialSession)
       = computeStatus ((board initialSession)[nat 4 := Some PlayerX])
           (case PlayerX of PlayerX \<Rightarrow> PlayerO | PlayerO \<Rightarrow> PlayerX)"
    by blast+
  have st1: "getStatus ?s1 = PLAYING PlayerO"
    by (simp add: getStatus_def c)
  have cell1: "js_index (board ?s1) 0 = Some None"
    by (simp add: js_index_def)
  have c1: "computeStatus [Some PlayerO, None, None, None, Some PlayerX, None, None, None, None]
              PlayerX = PLAYING PlayerX"
    by (simp add: computeStatus_def isDraw_def getWinner_def WINNING_LINES_def js_index_def)
  from st1 cell1 have h1: "getStatus ?s1 = PLAYING PlayerO \<and> (0::int) \<le> 0 \<and>
      (0::int) \<le> 8 \<and> js_index (board ?s1) 0 = Some None" by simp
  from applyMove_accepted_effect [OF h1]
  have second:
    "board (applyMove 0 ?s1) = (board ?s1)[nat 0 := Some PlayerO]"
    "nextPlayer (applyMove 0 ?s1) = (case PlayerO of PlayerX \<Rightarrow> PlayerO | PlayerO \<Rightarrow> PlayerX)"
    "getStatus (applyMove 0 ?s1)
       = computeStatus ((board ?s1)[nat 0 := Some PlayerO])
           (case PlayerO of PlayerX \<Rightarrow> PlayerO | PlayerO \<Rightarrow> PlayerX)"
    by blast+
  have st2: "getStatus ?s2 = PLAYING PlayerX"
    by (simp add: getStatus_def computeStatus_def isDraw_def getWinner_def WINNING_LINES_def
        js_index_def)
  have cell2: "js_index (board ?s2) 2 = Some None"
    by (simp add: js_index_def)
  have c2: "computeStatus [Some PlayerX, Some PlayerX, Some PlayerX, Some PlayerO, Some PlayerO,
                           None, None, None, None] PlayerO = WON PlayerX [0, 1, 2]"
    by (simp add: computeStatus_def getWinner_def WINNING_LINES_def js_index_def)
  have b2: "(board ?s2)[nat 2 := Some PlayerX]
              = [Some PlayerX, Some PlayerX, Some PlayerX, Some PlayerO, Some PlayerO,
                 None, None, None, None]"
    by (simp add: eval_nat_numeral)
  from st2 cell2 have h2: "getStatus ?s2 = PLAYING PlayerX \<and> (0::int) \<le> 2 \<and>
      (2::int) \<le> 8 \<and> js_index (board ?s2) 2 = Some None" by simp
  from applyMove_accepted_effect [OF h2]
  have third:
    "nextPlayer (applyMove 2 ?s2) = (case PlayerX of PlayerX \<Rightarrow> PlayerO | PlayerO \<Rightarrow> PlayerX)"
    "getStatus (applyMove 2 ?s2)
       = computeStatus ((board ?s2)[nat 2 := Some PlayerX])
           (case PlayerX of PlayerX \<Rightarrow> PlayerO | PlayerO \<Rightarrow> PlayerX)"
    by blast+
  have b1: "(board ?s1)[nat 0 := Some PlayerO]
              = [Some PlayerO, None, None, None, Some PlayerX, None, None, None, None]"
    by simp
  show ?thesis
    by (simp only: st cell first second third b b1 b2 c c1 c2 Player.case simp_thms)
qed

text \<open>The accepted moves are exactly the calls that change the session.\<close>

lemma moveAccepted_iff_session_changes:
  "moveAccepted i s \<longleftrightarrow> applyMove i s \<noteq> s"
proof
  assume acc: "moveAccepted i s"
  then have cell: "js_index (board s) i = Some None" by (simp add: moveAccepted_def)
  then have i0: "0 \<le> i" and inside: "i < int (length (board s))"
    by (auto simp: js_index_def split: if_splits)
  have "js_index (board (applyMove i s)) i = Some (Some (nextPlayer s))"
    using inside by (simp add: applyMove_accepted [OF acc] js_index_update [OF i0])
  with cell show "applyMove i s \<noteq> s" by auto
next
  assume "applyMove i s \<noteq> s"
  then show "moveAccepted i s" using applyMove_rejected by blast
qed

subsection \<open>Scores\<close>

lemma getStatus_applyMove_accepted:
  "moveAccepted i s \<Longrightarrow>
   getStatus (applyMove i s)
     = computeStatus ((board s)[nat i := Some (nextPlayer s)]) (oppositePlayer (nextPlayer s))"
  by (simp add: getStatus_def applyMove_accepted)

lemma scores_applyMove_accepted:
  "moveAccepted i s \<Longrightarrow>
   scores (applyMove i s) =
     (case getStatus (applyMove i s) of
        WON w _ \<Rightarrow> incrementScore w (scores s)
      | DRAW \<Rightarrow> (scores s)\<lparr>draws := draws (scores s) + 1\<rparr>
      | PLAYING _ \<Rightarrow> scores s)"
  by (simp add: getStatus_applyMove_accepted) (simp add: applyMove_accepted)

text \<open>
  Claim C6. After an accepted move whose resulting status is Won with winner \<open>w\<close>, the
  counter of \<open>w\<close> is one higher and the two other counters are as before; after an
  accepted move whose resulting status is Draw, the draws counter is one higher and the
  two player counters are as before. An accepted move that results in Playing, a
  rejected move and \<open>restartRound\<close> leave the scores as they were.
\<close>

theorem scores_change_only_when_round_ends:
  "(moveAccepted i s \<and> getStatus (applyMove i s) = WON w l \<longrightarrow>
      score_X (scores (applyMove i s)) = score_X (scores s) + (if w = PlayerX then 1 else 0) \<and>
      score_O (scores (applyMove i s)) = score_O (scores s) + (if w = PlayerO then 1 else 0) \<and>
      draws (scores (applyMove i s)) = draws (scores s)) \<and>
   (moveAccepted i s \<and> getStatus (applyMove i s) = DRAW \<longrightarrow>
      score_X (scores (applyMove i s)) = score_X (scores s) \<and>
      score_O (scores (applyMove i s)) = score_O (scores s) \<and>
      draws (scores (applyMove i s)) = draws (scores s) + 1) \<and>
   (moveAccepted i s \<and> getStatus (applyMove i s) = PLAYING q \<longrightarrow>
      scores (applyMove i s) = scores s) \<and>
   (\<not> moveAccepted i s \<longrightarrow> scores (applyMove i s) = scores s) \<and>
   scores (restartRound startingPlayer s) = scores s"
proof (intro conjI impI)
  assume h: "moveAccepted i s \<and> getStatus (applyMove i s) = WON w l"
  then have sc: "scores (applyMove i s) = incrementScore w (scores s)"
    by (simp add: scores_applyMove_accepted)
  show "score_X (scores (applyMove i s)) = score_X (scores s) + (if w = PlayerX then 1 else 0)"
    unfolding sc by (cases w) simp_all
  show "score_O (scores (applyMove i s)) = score_O (scores s) + (if w = PlayerO then 1 else 0)"
    unfolding sc by (cases w) simp_all
  show "draws (scores (applyMove i s)) = draws (scores s)"
    unfolding sc by (cases w) simp_all
next
  assume h: "moveAccepted i s \<and> getStatus (applyMove i s) = DRAW"
  then have sc: "scores (applyMove i s) = (scores s)\<lparr>draws := draws (scores s) + 1\<rparr>"
    by (simp add: scores_applyMove_accepted)
  show "score_X (scores (applyMove i s)) = score_X (scores s)" unfolding sc by simp
  show "score_O (scores (applyMove i s)) = score_O (scores s)" unfolding sc by simp
  show "draws (scores (applyMove i s)) = draws (scores s) + 1" unfolding sc by simp
next
  assume "moveAccepted i s \<and> getStatus (applyMove i s) = PLAYING q"
  then show "scores (applyMove i s) = scores s"
    by (simp add: scores_applyMove_accepted)
next
  assume "\<not> moveAccepted i s"
  then show "scores (applyMove i s) = scores s"
    by (simp add: applyMove_rejected)
next
  show "scores (restartRound startingPlayer s) = scores s"
    by (simp add: restartRound_def)
qed

text \<open>
  Scenario 2's last move (\<open>X\<close> completes the top row) adds one to \<open>X\<close>'s counter only;
  Scenario 3's last move (\<open>X\<close> fills cell 8, no line) adds one to the draws only; the
  opening move and a move on an occupied cell change no counter.
\<close>

theorem scores_change_only_when_round_ends_witness:
  "scores (applyMove 2
     \<lparr>board = [Some PlayerX, Some PlayerX, None, Some PlayerO, Some PlayerO,
               None, None, None, None],
      nextPlayer = PlayerX, scores = \<lparr>score_X = 0, score_O = 0, draws = 0\<rparr>\<rparr>)
     = \<lparr>score_X = 1, score_O = 0, draws = 0\<rparr> \<and>
   scores (applyMove 8
     \<lparr>board = [Some PlayerX, Some PlayerX, Some PlayerO, Some PlayerO, Some PlayerO,
               Some PlayerX, Some PlayerX, Some PlayerO, None],
      nextPlayer = PlayerX, scores = \<lparr>score_X = 1, score_O = 0, draws = 0\<rparr>\<rparr>)
     = \<lparr>score_X = 1, score_O = 0, draws = 1\<rparr> \<and>
   scores (applyMove 4 initialSession) = \<lparr>score_X = 0, score_O = 0, draws = 0\<rparr> \<and>
   scores (applyMove 4
     \<lparr>board = [None, None, None, None, Some PlayerX, None, None, None, None],
      nextPlayer = PlayerO, scores = \<lparr>score_X = 1, score_O = 2, draws = 3\<rparr>\<rparr>)
     = \<lparr>score_X = 1, score_O = 2, draws = 3\<rparr>"
proof (intro conjI)
  let ?s = "\<lparr>board = [Some PlayerX, Some PlayerX, None, Some PlayerO, Some PlayerO,
                      None, None, None, None],
             nextPlayer = PlayerX, scores = \<lparr>score_X = 0, score_O = 0, draws = 0\<rparr>\<rparr>"
  have acc: "moveAccepted 2 ?s"
    by (simp add: moveAccepted_def getStatus_def computeStatus_def isDraw_def getWinner_def
        WINNING_LINES_def js_index_def)
  have "getStatus (applyMove 2 ?s) = WON PlayerX [0, 1, 2]"
    unfolding getStatus_applyMove_accepted [OF acc]
    by (simp add: eval_nat_numeral)
       (simp add: computeStatus_def getWinner_def WINNING_LINES_def js_index_def)
  with acc scores_change_only_when_round_ends [of 2 ?s PlayerX "[0, 1, 2]"]
  have "score_X (scores (applyMove 2 ?s)) = 1 \<and> score_O (scores (applyMove 2 ?s)) = 0 \<and>
        draws (scores (applyMove 2 ?s)) = 0" by simp
  then show "scores (applyMove 2 ?s) = \<lparr>score_X = 1, score_O = 0, draws = 0\<rparr>"
    by (cases "scores (applyMove 2 ?s)") simp
next
  let ?s = "\<lparr>board = [Some PlayerX, Some PlayerX, Some PlayerO, Some PlayerO, Some PlayerO,
                      Some PlayerX, Some PlayerX, Some PlayerO, None],
             nextPlayer = PlayerX, scores = \<lparr>score_X = 1, score_O = 0, draws = 0\<rparr>\<rparr>"
  have acc: "moveAccepted 8 ?s"
    by (simp add: moveAccepted_def getStatus_def computeStatus_def isDraw_def getWinner_def
        WINNING_LINES_def js_index_def)
  have "getStatus (applyMove 8 ?s) = DRAW"
    unfolding getStatus_applyMove_accepted [OF acc]
    by (simp add: eval_nat_numeral)
       (simp add: computeStatus_def isDraw_def getWinner_def WINNING_LINES_def js_index_def)
  with acc scores_change_only_when_round_ends [of 8 ?s]
  have "score_X (scores (applyMove 8 ?s)) = 1 \<and> score_O (scores (applyMove 8 ?s)) = 0 \<and>
        draws (scores (applyMove 8 ?s)) = 1" by simp
  then show "scores (applyMove 8 ?s) = \<lparr>score_X = 1, score_O = 0, draws = 1\<rparr>"
    by (cases "scores (applyMove 8 ?s)") simp
next
  have acc: "moveAccepted 4 initialSession"
    by (simp add: moveAccepted_def getStatus_def initialSession_def
        computeStatus_createEmptyBoard)
       (simp add: createEmptyBoard_cells js_index_def)
  have "getStatus (applyMove 4 initialSession) = PLAYING PlayerO"
    unfolding getStatus_applyMove_accepted [OF acc]
    by (simp add: initialSession_def createEmptyBoard_cells eval_nat_numeral)
       (simp add: computeStatus_def isDraw_def getWinner_def WINNING_LINES_def js_index_def)
  with acc scores_change_only_when_round_ends [of 4 initialSession _ _ PlayerO]
  have "scores (applyMove 4 initialSession) = scores initialSession" by simp
  then show "scores (applyMove 4 initialSession) = \<lparr>score_X = 0, score_O = 0, draws = 0\<rparr>"
    by (simp add: initialSession_def)
next
  let ?s = "\<lparr>board = [None, None, None, None, Some PlayerX, None, None, None, None],
             nextPlayer = PlayerO, scores = \<lparr>score_X = 1, score_O = 2, draws = 3\<rparr>\<rparr>"
  have "\<not> moveAccepted 4 ?s"
    by (simp add: moveAccepted_def js_index_def)
  with scores_change_only_when_round_ends [of 4 ?s]
  show "scores (applyMove 4 ?s) = \<lparr>score_X = 1, score_O = 2, draws = 3\<rparr>" by simp
qed

subsection \<open>Restart and reset\<close>

text \<open>
  Claim C7. From any session, \<open>restartRound\<close> with a starting player \<open>p\<close> gives a board
  of 9 Empty cells, \<open>p\<close> as next player, the scores as they were and the status Playing
  with \<open>p\<close>; called without a starting player it does the same with \<open>X\<close>. It is a
  total function of the session, with no precondition.
\<close>

theorem restartRound_effect:
  "board (restartRound (Some p) s) = replicate 9 None \<and>
   nextPlayer (restartRound (Some p) s) = p \<and>
   scores (restartRound (Some p) s) = scores s \<and>
   getStatus (restartRound (Some p) s) = PLAYING p \<and>
   board (restartRound None s) = replicate 9 None \<and>
   nextPlayer (restartRound None s) = PlayerX \<and>
   scores (restartRound None s) = scores s \<and>
   getStatus (restartRound None s) = PLAYING PlayerX"
  by (simp add: restartRound_def getStatus_def computeStatus_createEmptyBoard)
     (simp add: createEmptyBoard_def)

text \<open>
  Scenario 4: after \<open>X\<close> has won with the top row, a restart with \<open>O\<close> gives the empty
  board, the status Playing with \<open>O\<close>, and \<open>X\<close>'s counter is still 1.
\<close>

theorem restartRound_effect_witness:
  "board (restartRound (Some PlayerO)
     \<lparr>board = [Some PlayerX, Some PlayerX, Some PlayerX, Some PlayerO, Some PlayerO,
               None, None, None, None],
      nextPlayer = PlayerO, scores = \<lparr>score_X = 1, score_O = 0, draws = 0\<rparr>\<rparr>)
     = [None, None, None, None, None, None, None, None, None] \<and>
   getStatus (restartRound (Some PlayerO)
     \<lparr>board = [Some PlayerX, Some PlayerX, Some PlayerX, Some PlayerO, Some PlayerO,
               None, None, None, None],
      nextPlayer = PlayerO, scores = \<lparr>score_X = 1, score_O = 0, draws = 0\<rparr>\<rparr>)
     = PLAYING PlayerO \<and>
   scores (restartRound (Some PlayerO)
     \<lparr>board = [Some PlayerX, Some PlayerX, Some PlayerX, Some PlayerO, Some PlayerO,
               None, None, None, None],
      nextPlayer = PlayerO, scores = \<lparr>score_X = 1, score_O = 0, draws = 0\<rparr>\<rparr>)
     = \<lparr>score_X = 1, score_O = 0, draws = 0\<rparr>"
  using restartRound_effect [of PlayerO
     "\<lparr>board = [Some PlayerX, Some PlayerX, Some PlayerX, Some PlayerO, Some PlayerO,
               None, None, None, None],
      nextPlayer = PlayerO, scores = \<lparr>score_X = 1, score_O = 0, draws = 0\<rparr>\<rparr>"]
  by (simp add: replicate_9_cells)

text \<open>
  Claim C8. From any session, \<open>resetScoresAndRestart\<close> gives the session with three
  zero counters, a board of 9 Empty cells and \<open>X\<close> as next player, whose status is
  Playing with \<open>X\<close>.
\<close>

theorem resetScoresAndRestart_effect:
  "resetScoresAndRestart s =
     \<lparr>board = replicate 9 None, nextPlayer = PlayerX,
      scores = \<lparr>score_X = 0, score_O = 0, draws = 0\<rparr>\<rparr> \<and>
   getStatus (resetScoresAndRestart s) = PLAYING PlayerX"
  by (simp add: resetScoresAndRestart_def restartRound_def getStatus_def
      computeStatus_createEmptyBoard)
     (simp add: createEmptyBoard_def)

text \<open>Scenario 5, from a session that stands at Draw with non-zero counters.\<close>

theorem resetScoresAndRestart_effect_witness:
  "resetScoresAndRestart
     \<lparr>board = [Some PlayerX, Some PlayerX, Some PlayerO, Some PlayerO, Some PlayerO,
               Some PlayerX, Some PlayerX, Some PlayerO, Some PlayerX],
      nextPlayer = PlayerO, scores = \<lparr>score_X = 3, score_O = 2, draws = 1\<rparr>\<rparr>
     = \<lparr>board = [None, None, None, None, None, None, None, None, None],
        nextPlayer = PlayerX, scores = \<lparr>score_X = 0, score_O = 0, draws = 0\<rparr>\<rparr> \<and>
   getStatus (resetScoresAndRestart
     \<lparr>board = [Some PlayerX, Some PlayerX, Some PlayerO, Some PlayerO, Some PlayerO,
               Some PlayerX, Some PlayerX, Some PlayerO, Some PlayerX],
      nextPlayer = PlayerO, scores = \<lparr>score_X = 3, score_O = 2, draws = 1\<rparr>\<rparr>)
     = PLAYING PlayerX"
  using resetScoresAndRestart_effect [of
     "\<lparr>board = [Some PlayerX, Some PlayerX, Some PlayerO, Some PlayerO, Some PlayerO,
               Some PlayerX, Some PlayerX, Some PlayerO, Some PlayerX],
      nextPlayer = PlayerO, scores = \<lparr>score_X = 3, score_O = 2, draws = 1\<rparr>\<rparr>"]
  unfolding replicate_9_cells .

subsection \<open>The board keeps its 9 cells\<close>

lemma length_board_applyMove:
  "length (board (applyMove i s)) = length (board s)"
proof (cases "moveAccepted i s")
  case True
  then show ?thesis by (simp add: applyMove_accepted)
next
  case False
  then show ?thesis by (simp add: applyMove_rejected)
qed

text \<open>
  Claim C9. The initial board has 9 cells, and \<open>applyMove\<close> with an index from 0 to 8,
  \<open>restartRound\<close> and \<open>resetScoresAndRestart\<close> each give a board of 9 cells again: the
  board of every reachable session has exactly 9 cells.
\<close>

theorem reachable_board_length:
  "reachable s \<Longrightarrow> length (board s) = 9"
proof (induction rule: reachable.induct)
  case reachable_init
  show ?case by (simp add: initialSession_def createEmptyBoard_def)
next
  case (reachable_move s i)
  then show ?case by (simp add: length_board_applyMove)
next
  case (reachable_restart s startingPlayer)
  show ?case by (simp add: restartRound_def createEmptyBoard_def)
next
  case (reachable_reset s)
  show ?case by (simp add: resetScoresAndRestart_def restartRound_def createEmptyBoard_def)
qed

text \<open>
  The session after the moves 4 and 0, a restart with \<open>O\<close> and the move 8 is reachable.
\<close>

theorem reachable_board_length_witness:
  "reachable (applyMove 8 (restartRound (Some PlayerO) (applyMove 0 (applyMove 4 initialSession)))) \<and>
   length (board (applyMove 8 (restartRound (Some PlayerO)
                   (applyMove 0 (applyMove 4 initialSession))))) = 9"
proof -
  have r: "reachable (applyMove 8 (restartRound (Some PlayerO)
                        (applyMove 0 (applyMove 4 initialSession))))"
    by (intro reachable_move reachable_restart reachable_init) simp_all
  from reachable_board_length [OF r] r show ?thesis by simp
qed

subsection \<open>Moves outside the board\<close>

text \<open>
  Claim C10. On a session whose board has its 9 cells, \<open>applyMove\<close> with an integer index
  below 0 or above 8 returns the session unchanged: the read of the cell gives
  \<^verbatim>\<open>undefined\<close>, which is not \<^verbatim>\<open>null\<close>, so the move is rejected like one on an occupied
  cell. The operation has no error result.
\<close>

theorem applyMove_out_of_range_is_noop:
  "length (board s) = 9 \<Longrightarrow> i < 0 \<or> 8 < i \<Longrightarrow>
   js_index (board s) i = None \<and>
   applyMove i s = s \<and>
   board (applyMove i s) = board s \<and>
   nextPlayer (applyMove i s) = nextPlayer s \<and>
   scores (applyMove i s) = scores s"
proof -
  assume len: "length (board s) = 9" and out: "i < 0 \<or> 8 < i"
  then have undef: "js_index (board s) i = None"
    by (auto simp: js_index_def)
  then have "\<not> moveAccepted i s" by (simp add: moveAccepted_def)
  then have "applyMove i s = s" by (rule applyMove_rejected)
  with undef show ?thesis by simp
qed

text \<open>The indices 9 and -1 on the initial session.\<close>

theorem applyMove_out_of_range_is_noop_witness:
  "length (board initialSession) = 9 \<and>
   applyMove 9 initialSession = initialSession \<and>
   applyMove (- 1) initialSession = initialSession"
proof -
  have len: "length (board initialSession) = 9"
    by (simp add: initialSession_def createEmptyBoard_def)
  from applyMove_out_of_range_is_noop [OF len, of 9]
       applyMove_out_of_range_is_noop [OF len, of "- 1"] len
  show ?thesis by simp
qed

end
